theory Spec2Isabelle
  imports Main "HOL-Library.Word"
begin

section \<open>Identifiers\<close>

text \<open>
  \<^verbatim>\<open>type ID uint64\<close>: a span or trace identifier is an unsigned 64-bit integer.
\<close>

type_synonym ID = "64 word"

text \<open>
  Errors are values. \<open>ErrBadSpanID\<close> is the sentinel of \<^verbatim>\<open>span.go\<close>
  (\<^verbatim>\<open>errors.New("bad span ID")\<close>); \<open>ErrParseID\<close> stands for whatever error the
  identifier parser reports for a component, tagged with the reason.
\<close>

datatype parse_reason = BadLength | BadDigit

datatype error = ErrBadSpanID | ErrParseID parse_reason

text \<open>
  Modelled from the spec: the identifier's string method \<^verbatim>\<open>ID.String\<close> is not
  among the source files. The spec gives it as "lowercase hexadecimal, zero-padded to
  16 characters". \<open>hexdigit\<close> is the digit of a value below 16 and
  \<open>hex_of_nat d n\<close> writes the \<open>d\<close> low hexadecimal digits of \<open>n\<close>, most
  significant first.
\<close>

definition hexdigit :: "nat \<Rightarrow> char" where
  "hexdigit n = ''0123456789abcdef'' ! n"

fun hex_of_nat :: "nat \<Rightarrow> nat \<Rightarrow> string" where
  "hex_of_nat 0 n = []"
| "hex_of_nat (Suc d) n = hex_of_nat d (n div 16) @ [hexdigit (n mod 16)]"

definition ID_String :: "ID \<Rightarrow> string" where
  "ID_String i = hex_of_nat 16 (unat i)"

text \<open>
  Modelled from the spec: the identifier parser \<^verbatim>\<open>ParseID\<close> is not among the source
  files. The spec gives it as a "strict 16-hex-digit decode; any other length or non-hex
  character fails". A hexadecimal character is a decimal digit or a letter a to f in
  either case.
\<close>

definition hexval :: "char \<Rightarrow> nat option" where
  "hexval c =
     (let n = (of_char c :: nat) in
      if 48 \<le> n \<and> n \<le> 57 then Some (n - 48)
      else if 97 \<le> n \<and> n \<le> 102 then Some (n - 87)
      else if 65 \<le> n \<and> n \<le> 70 then Some (n - 55)
      else None)"

fun parse_hex :: "nat \<Rightarrow> string \<Rightarrow> nat option" where
  "parse_hex acc [] = Some acc"
| "parse_hex acc (c # cs) =
     (case hexval c of None \<Rightarrow> None | Some v \<Rightarrow> parse_hex (16 * acc + v) cs)"

definition ParseID :: "string \<Rightarrow> error + ID" where
  "ParseID s =
     (if length s \<noteq> 16 then Inl (ErrParseID BadLength)
      else case parse_hex 0 s of
             None \<Rightarrow> Inl (ErrParseID BadDigit)
           | Some n \<Rightarrow> Inr (of_nat n))"

section \<open>Span identifiers\<close>

text \<open>\<^verbatim>\<open>type SpanID struct { Trace ID; Span ID; Parent ID }\<close>\<close>

record SpanID =
  Trace :: ID
  Span :: ID
  Parent :: ID

definition SpanIDDelimiter :: string where
  "SpanIDDelimiter = ''/''"

text \<open>
  \<^verbatim>\<open>SpanID.String\<close>: \<^verbatim>\<open>fmt.Sprintf\<close> with only \<^verbatim>\<open>%s\<close> verbs concatenates
  its arguments, each identifier printed by its own string method.
\<close>

definition SpanID_String :: "SpanID \<Rightarrow> string" where
  "SpanID_String sid =
     (if Parent sid = 0
      then ID_String (Trace sid) @ SpanIDDelimiter @ ID_String (Span sid)
      else ID_String (Trace sid) @ SpanIDDelimiter @ ID_String (Span sid)
             @ SpanIDDelimiter @ ID_String (Parent sid))"

definition IsRoot :: "SpanID \<Rightarrow> bool" where
  "IsRoot sid = (Parent sid = 0)"

text \<open>
  \<^verbatim>\<open>strings.Split(s, sep)\<close> of the Go library for a separator of one byte: the
  substrings between the separators, one more than there are separators, so that the
  empty string splits into one empty component.
\<close>

fun split_byte :: "char \<Rightarrow> string \<Rightarrow> string list" where
  "split_byte c [] = [[]]"
| "split_byte c (x # xs) =
     (if x = c then [] # split_byte c xs
      else case split_byte c xs of
             [] \<Rightarrow> [[x]]
           | p # ps \<Rightarrow> (x # p) # ps)"

definition Split :: "string \<Rightarrow> string \<Rightarrow> string list" where
  "Split s sep = split_byte (hd sep) s"

text \<open>
  \<^verbatim>\<open>ParseSpanID\<close>. The component count is checked first, so the indexing
  \<^verbatim>\<open>parts[0]\<close>, \<^verbatim>\<open>parts[1]\<close>, \<^verbatim>\<open>parts[2]\<close> is always in range; the Go
  pair \<^verbatim>\<open>(*SpanID, error)\<close> is a sum, \<open>Inl\<close> the error with a nil pointer, \<open>Inr\<close>
  the span identifier with a nil error.
\<close>

definition ParseSpanID :: "string \<Rightarrow> error + SpanID" where
  "ParseSpanID s =
     (let parts = Split s SpanIDDelimiter in
      if length parts \<noteq> 2 \<and> length parts \<noteq> 3 then Inl ErrBadSpanID
      else case ParseID (parts ! 0) of
        Inl err \<Rightarrow> Inl ErrBadSpanID
      | Inr root \<Rightarrow>
          (case ParseID (parts ! 1) of
             Inl err \<Rightarrow> Inl ErrBadSpanID
           | Inr i \<Rightarrow>
               if length parts = 3
               then (case ParseID (parts ! 2) of
                       Inl err \<Rightarrow> Inl ErrBadSpanID
                     | Inr parent \<Rightarrow> Inr \<lparr>Trace = root, Span = i, Parent = parent\<rparr>)
               else Inr \<lparr>Trace = root, Span = i, Parent = 0\<rparr>))"

text \<open>
  \<^verbatim>\<open>generateID\<close> is not among the source files and draws from a random source. The
  generator is a parameter \<open>gen\<close> that threads the state of the random source: every
  result below holds for whatever identifiers it produces. A composite literal
  evaluates its fields in order, so \<^verbatim>\<open>Trace\<close> is drawn before \<^verbatim>\<open>Span\<close>; the
  omitted \<^verbatim>\<open>Parent\<close> is the zero value.
\<close>

definition NewRootSpanID :: "('r \<Rightarrow> ID \<times> 'r) \<Rightarrow> 'r \<Rightarrow> SpanID \<times> 'r" where
  "NewRootSpanID gen r =
     (let (t, r1) = gen r; (s, r2) = gen r1
      in (\<lparr>Trace = t, Span = s, Parent = 0\<rparr>, r2))"

definition NewSpanID :: "('r \<Rightarrow> ID \<times> 'r) \<Rightarrow> SpanID \<Rightarrow> 'r \<Rightarrow> SpanID \<times> 'r" where
  "NewSpanID gen parent r =
     (let (s, r1) = gen r
      in (\<lparr>Trace = Trace parent, Span = s, Parent = Span parent\<rparr>, r1))"

section \<open>Annotations and spans\<close>

text \<open>
  A Go byte slice is either nil or a sequence of bytes (possibly empty): \<open>None\<close> is the
  nil slice. The conversion \<^verbatim>\<open>string(b)\<close> of a nil slice is the empty string.
\<close>

type_synonym bytes = "string option"

definition go_string :: "bytes \<Rightarrow> string" where
  "go_string b = (case b of None \<Rightarrow> [] | Some cs \<Rightarrow> cs)"

text \<open>\<^verbatim>\<open>type Annotation struct { Key string; Value []byte }\<close>\<close>

record Annotation =
  Key :: string
  Value :: bytes

type_synonym Annotations = "Annotation list"

text \<open>\<^verbatim>\<open>type Span struct { ID SpanID; Annotations }\<close>\<close>

record Span =
  ID :: SpanID
  Annotations :: Annotations

definition nameKey :: string where
  "nameKey = ''name''"

text \<open>
  \<^verbatim>\<open>Span.Name\<close>: the loop returns at the first annotation whose key is
  \<^verbatim>\<open>nameKey\<close>, and the empty string after the last one.
\<close>

fun Name_loop :: "Annotations \<Rightarrow> string" where
  "Name_loop [] = []"
| "Name_loop (a # as) = (if Key a = nameKey then go_string (Value a) else Name_loop as)"

definition Name :: "Span \<Rightarrow> string" where
  "Name s = Name_loop (Annotations s)"

text \<open>
  The constant \<^verbatim>\<open>schemaPrefix\<close> is declared outside the source files; the spec gives
  the marker keys as \<^verbatim>\<open>_schema:<Name>\<close>.
\<close>

definition schemaPrefix :: string where
  "schemaPrefix = ''_schema:''"

text \<open>\<^verbatim>\<open>strings.HasPrefix(s, prefix)\<close> of the Go library.\<close>

definition HasPrefix :: "string \<Rightarrow> string \<Rightarrow> bool" where
  "HasPrefix s pre = (length pre \<le> length s \<and> take (length pre) s = pre)"

text \<open>
  \<^verbatim>\<open>Annotations.schemas\<close>: the loop appends to the result slice; the slice expression
  \<^verbatim>\<open>a.Key[len(schemaPrefix):]\<close> is in range because the key has the prefix.
\<close>

fun schemas_loop :: "string list \<Rightarrow> Annotations \<Rightarrow> string list" where
  "schemas_loop acc [] = acc"
| "schemas_loop acc (a # as) =
     (if HasPrefix (Key a) schemaPrefix
      then schemas_loop (acc @ [drop (length schemaPrefix) (Key a)]) as
      else schemas_loop acc as)"

definition schemas :: "Annotations \<Rightarrow> string list" where
  "schemas as = schemas_loop [] as"

text \<open>\<^verbatim>\<open>Annotations.get\<close>: the value of the first match, the nil slice when none.\<close>

fun get :: "Annotations \<Rightarrow> string \<Rightarrow> bytes" where
  "get [] key = None"
| "get (a # as) key = (if Key a = key then Value a else get as key)"

text \<open>\<^verbatim>\<open>Annotations.StringMap\<close>: the loop assigns into a fresh map, in list order.\<close>

fun StringMap_loop :: "(string \<rightharpoonup> string) \<Rightarrow> Annotations \<Rightarrow> (string \<rightharpoonup> string)" where
  "StringMap_loop m [] = m"
| "StringMap_loop m (a # as) = StringMap_loop (m(Key a \<mapsto> go_string (Value a))) as"

definition StringMap :: "Annotations \<Rightarrow> (string \<rightharpoonup> string)" where
  "StringMap as = StringMap_loop Map.empty as"

section \<open>The event codec: header sources\<close>

text \<open>
  Modelled from the spec: the marshal side of the event codec (the merge of header
  sources, the redaction of sensitive names and the flattening of a map-typed field)
  is not among the source files; only its test \<^verbatim>\<open>TestNewServerEvent\<close> is. A header
  source is a Go map, here an association list in which every key occurs once. The
  merge starts from an empty map and applies the primary source, then the secondary:
  "entries from the later-applied source overwrite entries from the earlier one on key
  collision".
\<close>

type_synonym header = "(string \<times> string) list"

fun assign :: "string \<Rightarrow> string \<Rightarrow> header \<Rightarrow> header" where
  "assign k v [] = [(k, v)]"
| "assign k v ((k', v') # m) = (if k' = k then (k, v) # m else (k', v') # assign k v m)"

fun applySource :: "header \<Rightarrow> header \<Rightarrow> header" where
  "applySource m [] = m"
| "applySource m ((k, v) # src) = applySource (assign k v m) src"

definition mergeHeaders :: "header \<Rightarrow> header \<Rightarrow> header" where
  "mergeHeaders primary secondary = applySource (applySource [] primary) secondary"

text \<open>
  Modelled from the spec: a value "whose key matches a fixed deny-list of sensitive
  names (case-insensitively; at minimum an Authorization header) is replaced with a
  literal redaction marker string". The marker \<^verbatim>\<open>REDACTED\<close> is the one the test
  expects; the comparison folds the ASCII letters.
\<close>

definition lower :: "char \<Rightarrow> char" where
  "lower c =
     (let n = (of_char c :: nat) in
      if 65 \<le> n \<and> n \<le> 90 then ''abcdefghijklmnopqrstuvwxyz'' ! (n - 65) else c)"

definition equalFold :: "string \<Rightarrow> string \<Rightarrow> bool" where
  "equalFold a b = (map lower a = map lower b)"

definition sensitiveNames :: "string list" where
  "sensitiveNames = [''Authorization'']"

definition redactionMarker :: string where
  "redactionMarker = ''REDACTED''"

definition isSensitive :: "string \<Rightarrow> bool" where
  "isSensitive k = list_ex (equalFold k) sensitiveNames"

definition redact :: "header \<Rightarrow> header" where
  "redact m = map (\<lambda>(k, v). (k, if isSensitive k then redactionMarker else v)) m"

text \<open>
  Modelled from the spec: "each map entry contributes an annotation keyed
  \<^verbatim>\<open><path-to-map>.<entry-key>\<close>", and "the merged result, not the two sources
  separately, is what gets flattened".
\<close>

definition flattenMap :: "string \<Rightarrow> header \<Rightarrow> Annotations" where
  "flattenMap path m = map (\<lambda>(k, v). \<lparr>Key = path @ ''.'' @ k, Value = Some v\<rparr>) m"

definition marshalHeaders :: "string \<Rightarrow> header \<Rightarrow> header \<Rightarrow> Annotations" where
  "marshalHeaders path primary secondary =
     flattenMap path (redact (mergeHeaders primary secondary))"

section \<open>The event codec: decoding\<close>

text \<open>
  Modelled from the spec: the unmarshal side of the event codec is not among the source
  files; only its test \<^verbatim>\<open>TestServerEvent_unmarshal\<close> is. The target of a decode is a
  value whose shape is that of the event type: strings, integers, times, string maps
  and nested structs with named fields. The type of times and its RFC 3339 parser
  belong to the Go library and are parameters (\<open>'t\<close> and \<open>pt\<close>).
\<close>

datatype 't val =
    VString string
  | VInt int
  | VTime 't
  | VMap header
  | VStruct "(string \<times> 't val) list"









definition matches_path :: "string list \<Rightarrow> string list \<times> bool \<Rightarrow> bool" where
  "matches_path path d =
     (if snd d then length (fst d) < length path \<and> take (length (fst d)) path = fst d
      else path = fst d)"






fun last_match :: "(Annotation \<Rightarrow> bool) \<Rightarrow> Annotations \<Rightarrow> string option" where
  "last_match p [] = None"
| "last_match p (a # as) =
     (case last_match p as of
        Some v \<Rightarrow> Some v
      | None \<Rightarrow> if p a then Some (go_string (Value a)) else None)"







section \<open>Well-formed identifier strings, in the words of the spec\<close>

text \<open>
  A component is a valid identifier when it is 16 hexadecimal digits; a string is
  malformed when its component count is not 2 or 3 or when one of the components in
  use (the first two, and the third when there is one) is not a valid identifier.
  Both follow the spec's sentences, for comparison with \<open>ParseSpanID\<close>.
\<close>

definition valid_id_string :: "string \<Rightarrow> bool" where
  "valid_id_string p = (length p = 16 \<and> list_all (\<lambda>c. hexval c \<noteq> None) p)"

definition malformed :: "string \<Rightarrow> bool" where
  "malformed s =
     (let parts = Split s ''/''; n = length parts in
      (n \<noteq> 2 \<and> n \<noteq> 3) \<or> \<not> valid_id_string (parts ! 0) \<or> \<not> valid_id_string (parts ! 1)
        \<or> (n = 3 \<and> \<not> valid_id_string (parts ! 2)))"

section \<open>Identifier strings round-trip\<close>

lemma hexdigit_cases:
  assumes "(n::nat) < 16"
  shows "n \<in> {0, 1, 2, 3, 4, 5, 6, 7, 8, 9, 10, 11, 12, 13, 14, 15}"
  using assms by (simp; arith)

lemma hexval_hexdigit: "n < 16 \<Longrightarrow> hexval (hexdigit n) = Some n"
  using hexdigit_cases [of n] by (auto simp: hexval_def hexdigit_def)

lemma hexval_slash: "hexval CHR ''/'' = None"
  by (simp add: hexval_def)

lemma length_hex_of_nat: "length (hex_of_nat d n) = d"
  by (induction d arbitrary: n) auto

lemma parse_hex_snoc:
  "parse_hex acc (cs @ [c]) =
     (case parse_hex acc cs of
        None \<Rightarrow> None
      | Some a \<Rightarrow> (case hexval c of None \<Rightarrow> None | Some v \<Rightarrow> Some (16 * a + v)))"
  by (induction cs arbitrary: acc) (auto split: option.splits)

lemma parse_hex_hex_of_nat: "parse_hex 0 (hex_of_nat d n) = Some (n mod 16 ^ d)"
proof (induction d arbitrary: n)
  case 0
  then show ?case by simp
next
  case (Suc d)
  have "16 * (n div 16 mod 16 ^ d) + n mod 16 = n mod (16 * 16 ^ d)"
    by (simp add: mod_mult2_eq)
  then show ?case
    by (simp add: parse_hex_snoc Suc.IH hexval_hexdigit)
qed

lemma parse_hex_None_iff:
  "parse_hex acc s = None \<longleftrightarrow> \<not> list_all (\<lambda>c. hexval c \<noteq> None) s"
  by (induction s arbitrary: acc) (auto split: option.splits)

lemma ParseID_ok_iff: "(\<exists>i. ParseID p = Inr i) \<longleftrightarrow> valid_id_string p"
proof (cases "parse_hex 0 p")
  case None
  then show ?thesis
    using parse_hex_None_iff [of 0 p] by (simp add: ParseID_def valid_id_string_def)
next
  case (Some n)
  then show ?thesis
    using parse_hex_None_iff [of 0 p] by (simp add: ParseID_def valid_id_string_def)
qed

lemma ParseID_ID_String: "ParseID (ID_String i) = Inr i"
proof -
  have "unat i < 2 ^ 64"
    using unsigned_less [of i] by simp
  then have "unat i mod 16 ^ 16 = unat i"
    by simp
  then show ?thesis
    by (simp add: ParseID_def ID_String_def length_hex_of_nat parse_hex_hex_of_nat
        del: hex_of_nat.simps)
qed

lemma valid_ID_String: "valid_id_string (ID_String i)"
  using ParseID_ok_iff [of "ID_String i"] by (simp add: ParseID_ID_String)

lemma valid_no_slash: "valid_id_string p \<Longrightarrow> CHR ''/'' \<notin> set p"
  by (auto simp: valid_id_string_def list_all_iff hexval_slash)

lemma length_ID_String: "length (ID_String i) = 16"
  by (simp add: ID_String_def length_hex_of_nat del: hex_of_nat.simps)

lemma hex_of_nat_numeral:
  "hex_of_nat (numeral k) n = hex_of_nat (pred_numeral k) (n div 16) @ [hexdigit (n mod 16)]"
proof -
  have "numeral k = Suc (pred_numeral k)"
    by (rule numeral_eq_Suc)
  then show ?thesis
    by (simp only: hex_of_nat.simps)
qed

lemma hex_of_nat_Suc_0: "hex_of_nat (Suc 0) n = [hexdigit (n mod 16)]"
  by simp

lemmas hex_eval = ID_String_def hex_of_nat_numeral hex_of_nat_Suc_0 hexdigit_def
lemmas parse_eval = ParseSpanID_def Split_def SpanIDDelimiter_def ParseID_def hexval_def

lemma ID_String_zero: "ID_String 0 = ''0000000000000000''"
  by (simp add: hex_eval del: hex_of_nat.simps)

lemma ID_String_inj:
  assumes "ID_String i = ID_String j"
  shows "i = j"
proof -
  have "Inr i = ParseID (ID_String j)"
    using ParseID_ID_String [of i] assms by simp
  then show ?thesis
    by (simp only: ParseID_ID_String sum.inject)
qed

section \<open>Splitting at the delimiter\<close>

lemma split_byte_notin: "c \<notin> set a \<Longrightarrow> split_byte c a = [a]"
  by (induction a) auto

lemma split_byte_append:
  "c \<notin> set a \<Longrightarrow> split_byte c (a @ c # rest) = a # split_byte c rest"
  by (induction a) auto

lemma Split_two:
  assumes "CHR ''/'' \<notin> set a" and "CHR ''/'' \<notin> set b"
  shows "Split (a @ ''/'' @ b) ''/'' = [a, b]"
  using assms by (simp add: Split_def split_byte_append split_byte_notin)

lemma Split_three:
  assumes "CHR ''/'' \<notin> set a" and "CHR ''/'' \<notin> set b" and "CHR ''/'' \<notin> set c"
  shows "Split (a @ ''/'' @ b @ ''/'' @ c) ''/'' = [a, b, c]"
  using assms by (simp add: Split_def split_byte_append split_byte_notin)

lemma ParseSpanID_two:
  assumes "ParseID a = Inr t" and "ParseID b = Inr s"
  shows "ParseSpanID (a @ ''/'' @ b) = Inr \<lparr>Trace = t, Span = s, Parent = 0\<rparr>"
proof -
  have "valid_id_string a" "valid_id_string b"
    using assms ParseID_ok_iff by blast+
  then have "Split (a @ ''/'' @ b) ''/'' = [a, b]"
    by (intro Split_two valid_no_slash)
  then show ?thesis
    using assms by (simp add: ParseSpanID_def SpanIDDelimiter_def)
qed

lemma ParseSpanID_three:
  assumes "ParseID a = Inr t" and "ParseID b = Inr s" and "ParseID c = Inr p"
  shows "ParseSpanID (a @ ''/'' @ b @ ''/'' @ c) = Inr \<lparr>Trace = t, Span = s, Parent = p\<rparr>"
proof -
  have "valid_id_string a" "valid_id_string b" "valid_id_string c"
    using assms ParseID_ok_iff by blast+
  then have "Split (a @ ''/'' @ b @ ''/'' @ c) ''/'' = [a, b, c]"
    by (intro Split_three valid_no_slash)
  then show ?thesis
    using assms by (simp add: ParseSpanID_def SpanIDDelimiter_def)
qed

section \<open>Span identifiers: encoding and parsing\<close>

text \<open>
  C1. For every span identifier \<open>s\<close>, whatever its three fields and also when the
  parent is zero, parsing the string of \<open>s\<close> succeeds and gives \<open>s\<close> back, and
  \<open>s\<close> is a root exactly when its parent is zero.
\<close>

theorem ParseSpanID_String_roundtrip:
  "ParseSpanID (SpanID_String s) = Inr s \<and> (IsRoot s \<longleftrightarrow> Parent s = 0)"
proof -
  have "ParseSpanID (SpanID_String s) = Inr s"
  proof (cases "Parent s = 0")
    case True
    then show ?thesis
      using ParseSpanID_two [OF ParseID_ID_String ParseID_ID_String, of "Trace s" "Span s"]
      by (simp add: SpanID_String_def SpanIDDelimiter_def)
  next
    case False
    then show ?thesis
      using ParseSpanID_three [OF ParseID_ID_String ParseID_ID_String ParseID_ID_String,
          of "Trace s" "Span s" "Parent s"]
      by (simp add: SpanID_String_def SpanIDDelimiter_def)
  qed
  then show ?thesis
    by (simp add: IsRoot_def)
qed

text \<open>
  C2. A string whose component count is not 2 or 3, or one of whose components in use
  is not a valid 16-hex-digit identifier, is rejected; every rejection carries the one
  sentinel \<open>ErrBadSpanID\<close>, whichever component was at fault; and every other string
  is accepted, with a span identifier and no error.
\<close>

theorem ParseSpanID_malformed:
  "(malformed s \<longrightarrow> ParseSpanID s = Inl ErrBadSpanID)
   \<and> (\<forall>e. ParseSpanID s = Inl e \<longrightarrow> e = ErrBadSpanID)
   \<and> (\<not> malformed s \<longrightarrow> (\<exists>sid. ParseSpanID s = Inr sid))"
proof -
  have ok: "valid_id_string p \<Longrightarrow> \<exists>i. ParseID p = Inr i" for p
    by (simp add: ParseID_ok_iff)
  have valid: "ParseID p = Inr i \<Longrightarrow> valid_id_string p" for p i
    using ParseID_ok_iff [of p] by blast
  have 1: "malformed s \<longrightarrow> ParseSpanID s = Inl ErrBadSpanID"
    unfolding malformed_def ParseSpanID_def SpanIDDelimiter_def Let_def
    by (auto simp: valid split: sum.splits)
  have 2: "\<forall>e. ParseSpanID s = Inl e \<longrightarrow> e = ErrBadSpanID"
    unfolding ParseSpanID_def Let_def
    by (auto split: sum.splits if_splits)
  have 3: "\<not> malformed s \<longrightarrow> (\<exists>sid. ParseSpanID s = Inr sid)"
    unfolding malformed_def ParseSpanID_def SpanIDDelimiter_def Let_def
    by (auto dest!: ok split: sum.splits)
  from 1 2 3 show ?thesis by blast
qed

theorem ParseSpanID_malformed_witness:
  "malformed ''0000000000000001/000000000000000g''
   \<and> ParseSpanID ''0000000000000001/000000000000000g'' = Inl ErrBadSpanID
   \<and> malformed ''0000000000000001''
   \<and> ParseSpanID ''0000000000000001'' = Inl ErrBadSpanID
   \<and> \<not> malformed ''0000000000000001/00000000000000fF''
   \<and> (\<exists>sid. ParseSpanID ''0000000000000001/00000000000000fF'' = Inr sid)"
proof -
  have a: "malformed ''0000000000000001/000000000000000g''"
    by (simp add: malformed_def Split_def valid_id_string_def hexval_def)
  have b: "malformed ''0000000000000001''"
    by (simp add: malformed_def Split_def)
  have c: "\<not> malformed ''0000000000000001/00000000000000fF''"
    by (simp add: malformed_def Split_def valid_id_string_def hexval_def)
  show ?thesis
    using a b c
      ParseSpanID_malformed [of "''0000000000000001/000000000000000g''"]
      ParseSpanID_malformed [of "''0000000000000001''"]
      ParseSpanID_malformed [of "''0000000000000001/00000000000000fF''"]
    by blast
qed

text \<open>
  C3. A root span identifier has a zero parent, whatever the generator draws, and a
  child made from a parent \<open>p\<close> has the trace of \<open>p\<close> and, as its parent, the
  span of \<open>p\<close>.
\<close>

theorem NewSpanID_fields:
  "Parent (fst (NewRootSpanID gen r)) = 0
   \<and> IsRoot (fst (NewRootSpanID gen r))
   \<and> Trace (fst (NewSpanID gen p r)) = Trace p
   \<and> Parent (fst (NewSpanID gen p r)) = Span p"
  by (simp add: NewRootSpanID_def NewSpanID_def IsRoot_def split_beta)

text \<open>
  C4. The string of a span identifier with a zero parent is the trace and the span in
  hexadecimal with one delimiter between them: two components. With a parent that is
  not zero it is trace, span and parent: three components, and the third is never the
  all-zero identifier string.
\<close>

theorem SpanID_String_components:
  "(Parent s = 0 \<longrightarrow>
      SpanID_String s = ID_String (Trace s) @ ''/'' @ ID_String (Span s)
      \<and> Split (SpanID_String s) ''/'' = [ID_String (Trace s), ID_String (Span s)])
   \<and> (Parent s \<noteq> 0 \<longrightarrow>
      SpanID_String s
        = ID_String (Trace s) @ ''/'' @ ID_String (Span s) @ ''/'' @ ID_String (Parent s)
      \<and> Split (SpanID_String s) ''/''
        = [ID_String (Trace s), ID_String (Span s), ID_String (Parent s)]
      \<and> ID_String (Parent s) \<noteq> ''0000000000000000'')"
proof -
  have ns: "CHR ''/'' \<notin> set (ID_String i)" for i
    by (rule valid_no_slash [OF valid_ID_String])
  have two: "Split (ID_String (Trace s) @ ''/'' @ ID_String (Span s)) ''/''
      = [ID_String (Trace s), ID_String (Span s)]"
    by (rule Split_two [OF ns ns])
  have three:
    "Split (ID_String (Trace s) @ ''/'' @ ID_String (Span s) @ ''/'' @ ID_String (Parent s)) ''/''
      = [ID_String (Trace s), ID_String (Span s), ID_String (Parent s)]"
    by (rule Split_three [OF ns ns ns])
  have nz: "Parent s \<noteq> 0 \<Longrightarrow> ID_String (Parent s) \<noteq> ''0000000000000000''"
    using ID_String_inj [of "Parent s" 0] by (simp only: ID_String_zero) blast
  show ?thesis
    using two three nz by (simp add: SpanID_String_def SpanIDDelimiter_def)
qed

theorem SpanID_String_components_witness:
  "SpanID_String \<lparr>Trace = 1, Span = 2, Parent = 0\<rparr> = ''0000000000000001/0000000000000002''
   \<and> Split (SpanID_String \<lparr>Trace = 1, Span = 2, Parent = 0\<rparr>) ''/''
       = [''0000000000000001'', ''0000000000000002'']
   \<and> SpanID_String \<lparr>Trace = 1, Span = 2, Parent = 171\<rparr>
       = ''0000000000000001/0000000000000002/00000000000000ab''
   \<and> Split (SpanID_String \<lparr>Trace = 1, Span = 2, Parent = 171\<rparr>) ''/''
       = [''0000000000000001'', ''0000000000000002'', ''00000000000000ab'']"
proof -
  have h: "ID_String 1 = ''0000000000000001''" "ID_String 2 = ''0000000000000002''"
    "ID_String 171 = ''00000000000000ab''"
    by (simp_all add: hex_eval del: hex_of_nat.simps)
  show ?thesis
    using SpanID_String_components [of "\<lparr>Trace = 1, Span = 2, Parent = 0\<rparr>"]
      SpanID_String_components [of "\<lparr>Trace = 1, Span = 2, Parent = 171\<rparr>"]
    by (clarsimp simp: h)
qed

text \<open>
  C9. The round trip from a string to a span identifier and back does not hold. A
  string of three components, the first two valid identifiers and the third the
  sixteen zeros of the zero identifier, is accepted, and the span identifier it parses
  to prints as a different string: the two-component form of a root.
\<close>

theorem String_ParseSpanID_not_roundtrip:
  "valid_id_string a \<and> valid_id_string b \<longrightarrow>
     (\<exists>sid. ParseSpanID (a @ ''/'' @ b @ ''/'' @ ''0000000000000000'') = Inr sid
        \<and> Parent sid = 0
        \<and> SpanID_String sid \<noteq> a @ ''/'' @ b @ ''/'' @ ''0000000000000000'')"
proof
  assume v: "valid_id_string a \<and> valid_id_string b"
  then obtain t s where ts: "ParseID a = Inr t" "ParseID b = Inr s"
    using ParseID_ok_iff by blast
  have z: "ParseID ''0000000000000000'' = Inr 0"
    using ParseID_ID_String [of 0] by (simp only: ID_String_zero)
  let ?sid = "\<lparr>Trace = t, Span = s, Parent = 0\<rparr>"
  have p: "ParseSpanID (a @ ''/'' @ b @ ''/'' @ ''0000000000000000'') = Inr ?sid"
    by (rule ParseSpanID_three [OF ts z])
  have "length (SpanID_String ?sid) = 33"
    by (simp add: SpanID_String_def SpanIDDelimiter_def length_ID_String)
  moreover have "length (a @ ''/'' @ b @ ''/'' @ ''0000000000000000'') = 50"
    using v by (simp add: valid_id_string_def)
  ultimately have "SpanID_String ?sid \<noteq> a @ ''/'' @ b @ ''/'' @ ''0000000000000000''"
    by (metis numeral_eq_iff semiring_norm(88,89))
  with p show "\<exists>sid. ParseSpanID (a @ ''/'' @ b @ ''/'' @ ''0000000000000000'') = Inr sid
        \<and> Parent sid = 0
        \<and> SpanID_String sid \<noteq> a @ ''/'' @ b @ ''/'' @ ''0000000000000000''"
    by (intro exI [of _ ?sid]) simp
qed

theorem String_ParseSpanID_not_roundtrip_witness:
  "ParseSpanID ''0000000000000001/0000000000000002/0000000000000000''
     = Inr \<lparr>Trace = 1, Span = 2, Parent = 0\<rparr>
   \<and> SpanID_String \<lparr>Trace = 1, Span = 2, Parent = 0\<rparr> = ''0000000000000001/0000000000000002''
   \<and> (\<exists>sid. ParseSpanID ''0000000000000001/0000000000000002/0000000000000000'' = Inr sid
        \<and> SpanID_String sid \<noteq> ''0000000000000001/0000000000000002/0000000000000000'')"
proof -
  have v: "valid_id_string ''0000000000000001'' \<and> valid_id_string ''0000000000000002''"
    by (simp add: valid_id_string_def hexval_def)
  have p: "ParseSpanID ''0000000000000001/0000000000000002/0000000000000000''
     = Inr \<lparr>Trace = 1, Span = 2, Parent = 0\<rparr>"
    by (simp add: parse_eval)
  have h: "ID_String 1 = ''0000000000000001''" "ID_String 2 = ''0000000000000002''"
    by (simp_all add: hex_eval del: hex_of_nat.simps)
  have s: "SpanID_String \<lparr>Trace = 1, Span = 2, Parent = 0\<rparr> = ''0000000000000001/0000000000000002''"
    by (simp add: SpanID_String_def SpanIDDelimiter_def h)
  show ?thesis
    using String_ParseSpanID_not_roundtrip [of "''0000000000000001''" "''0000000000000002''"] v p s
    by simp
qed

section \<open>Annotation lists\<close>

lemma get_absent: "key \<notin> Key ` set as \<Longrightarrow> get as key = None"
  by (induction as) auto

lemma get_first: "Key a \<notin> Key ` set pre \<Longrightarrow> get (pre @ a # post) (Key a) = Value a"
  by (induction pre) auto

lemma StringMap_loop_absent: "key \<notin> Key ` set as \<Longrightarrow> StringMap_loop m as key = m key"
  by (induction as arbitrary: m) auto

lemma StringMap_loop_append:
  "StringMap_loop m (xs @ ys) = StringMap_loop (StringMap_loop m xs) ys"
  by (induction xs arbitrary: m) auto

lemma StringMap_loop_dom: "dom (StringMap_loop m as) = dom m \<union> Key ` set as"
  by (induction as arbitrary: m) auto

text \<open>
  C5. In an annotation list and for a key: when no annotation has the key, \<open>get\<close>
  gives the nil slice and the map of \<open>StringMap\<close> has no entry for it; \<open>get\<close>
  gives the value of the first annotation with the key, whatever follows it; and
  \<open>StringMap\<close> maps the key to the value, as a string, of the last annotation with
  the key, whatever precedes it. The keys of the map are the keys of the list.
\<close>

theorem get_first_StringMap_last:
  "(key \<notin> Key ` set as \<longrightarrow> get as key = None \<and> StringMap as key = None)
   \<and> (Key a = key \<and> key \<notin> Key ` set pre \<longrightarrow> get (pre @ a # post) key = Value a)
   \<and> (Key a = key \<and> key \<notin> Key ` set post \<longrightarrow>
        StringMap (pre @ a # post) key = Some (go_string (Value a)))
   \<and> dom (StringMap as) = Key ` set as"
proof -
  have "StringMap (pre @ a # post) key = Some (go_string (Value a))"
    if "Key a = key" "key \<notin> Key ` set post"
    using that by (simp add: StringMap_def StringMap_loop_append StringMap_loop_absent)
  then show ?thesis
    using get_first [of a pre post]
    by (auto simp: get_absent StringMap_def StringMap_loop_absent StringMap_loop_dom)
qed

theorem get_first_StringMap_last_witness:
  "get [\<lparr>Key = ''k'', Value = Some ''1''\<rparr>, \<lparr>Key = ''j'', Value = Some ''2''\<rparr>,
        \<lparr>Key = ''k'', Value = Some ''3''\<rparr>] ''k'' = Some ''1''
   \<and> StringMap [\<lparr>Key = ''k'', Value = Some ''1''\<rparr>, \<lparr>Key = ''j'', Value = Some ''2''\<rparr>,
        \<lparr>Key = ''k'', Value = Some ''3''\<rparr>] ''k'' = Some ''3''
   \<and> get [\<lparr>Key = ''j'', Value = Some ''2''\<rparr>] ''k'' = None
   \<and> StringMap [\<lparr>Key = ''j'', Value = Some ''2''\<rparr>] ''k'' = None"
  using
    get_first_StringMap_last [where key = "''k''"
      and as = "[\<lparr>Key = ''j'', Value = Some ''2''\<rparr>]"
      and a = "\<lparr>Key = ''k'', Value = Some ''1''\<rparr>" and pre = "[]"
      and post = "[\<lparr>Key = ''j'', Value = Some ''2''\<rparr>, \<lparr>Key = ''k'', Value = Some ''3''\<rparr>]"]
    get_first_StringMap_last [where key = "''k''"
      and as = "[\<lparr>Key = ''j'', Value = Some ''2''\<rparr>]"
      and a = "\<lparr>Key = ''k'', Value = Some ''3''\<rparr>" and post = "[]"
      and pre = "[\<lparr>Key = ''k'', Value = Some ''1''\<rparr>, \<lparr>Key = ''j'', Value = Some ''2''\<rparr>]"]
  by (simp add: go_string_def)

lemma schemas_loop_eq:
  "schemas_loop acc as =
     acc @ map (\<lambda>a. drop (length schemaPrefix) (Key a))
             (filter (\<lambda>a. HasPrefix (Key a) schemaPrefix) as)"
  by (induction as arbitrary: acc) auto

lemma HasPrefix_iff: "HasPrefix s pre \<longleftrightarrow> (\<exists>rest. s = pre @ rest)"
proof
  assume "HasPrefix s pre"
  then have "s = pre @ drop (length pre) s"
    by (metis HasPrefix_def append_take_drop_id)
  then show "\<exists>rest. s = pre @ rest" ..
next
  assume "\<exists>rest. s = pre @ rest"
  then show "HasPrefix s pre"
    by (auto simp: HasPrefix_def)
qed

text \<open>
  C6. The schema names of an annotation list are, in the order of the list, the keys
  that start with \<^verbatim>\<open>_schema:\<close> with that prefix removed; an annotation whose key
  does not start with the prefix contributes nothing.
\<close>

theorem schemas_strip_prefix:
  "schemas as =
     map (\<lambda>a. drop 8 (Key a)) (filter (\<lambda>a. \<exists>name. Key a = ''_schema:'' @ name) as)
   \<and> schemas (as @ [\<lparr>Key = ''_schema:'' @ name, Value = v\<rparr>]) = schemas as @ [name]
   \<and> ((\<nexists>name. k = ''_schema:'' @ name) \<longrightarrow>
        schemas (as @ [\<lparr>Key = k, Value = v\<rparr>]) = schemas as)"
proof -
  have "HasPrefix k schemaPrefix \<longleftrightarrow> (\<exists>name. k = ''_schema:'' @ name)" for k
    by (simp only: HasPrefix_iff schemaPrefix_def)
  moreover have "length schemaPrefix = 8"
    by (simp add: schemaPrefix_def)
  ultimately show ?thesis
    by (simp add: schemas_def schemas_loop_eq)
qed

theorem schemas_strip_prefix_witness:
  "schemas [\<lparr>Key = ''_schema:B'', Value = None\<rparr>, \<lparr>Key = ''name'', Value = Some ''x''\<rparr>,
            \<lparr>Key = ''_schema:A'', Value = Some []\<rparr>, \<lparr>Key = ''_schema'', Value = None\<rparr>]
     = [''B'', ''A'']"
  using schemas_strip_prefix [of "[\<lparr>Key = ''_schema:B'', Value = None\<rparr>,
      \<lparr>Key = ''name'', Value = Some ''x''\<rparr>, \<lparr>Key = ''_schema:A'', Value = Some []\<rparr>]"
      "''_schema''" None]
  by (simp add: schemas_def schemaPrefix_def HasPrefix_def)

lemma Name_loop_absent: "nameKey \<notin> Key ` set as \<Longrightarrow> Name_loop as = []"
  by (induction as) auto

lemma Name_loop_first:
  "Key a = nameKey \<Longrightarrow> nameKey \<notin> Key ` set pre \<Longrightarrow>
     Name_loop (pre @ a # post) = go_string (Value a)"
  by (induction pre) auto

text \<open>
  C10. The name of a span is the value, as a string, of the first annotation whose key
  is exactly \<^verbatim>\<open>name\<close>, whatever annotations follow it, and the empty string when no
  annotation has that key.
\<close>

theorem Name_first_name_annotation:
  "(''name'' \<notin> Key ` set (Annotations s) \<longrightarrow> Name s = [])
   \<and> (Annotations s = pre @ a # post \<and> Key a = ''name'' \<and> ''name'' \<notin> Key ` set pre \<longrightarrow>
        Name s = go_string (Value a))"
  using Name_loop_absent [of "Annotations s"] Name_loop_first [of a pre post]
  by (auto simp: Name_def nameKey_def)

theorem Name_first_name_annotation_witness:
  "Name \<lparr>ID = \<lparr>Trace = 1, Span = 2, Parent = 0\<rparr>,
         Annotations = [\<lparr>Key = ''Name'', Value = Some ''a''\<rparr>, \<lparr>Key = ''name'', Value = Some ''b''\<rparr>,
                        \<lparr>Key = ''name'', Value = Some ''c''\<rparr>]\<rparr> = ''b''
   \<and> Name \<lparr>ID = \<lparr>Trace = 1, Span = 2, Parent = 0\<rparr>,
         Annotations = [\<lparr>Key = ''Name'', Value = Some ''a''\<rparr>]\<rparr> = []"
  using
    Name_first_name_annotation [of "\<lparr>ID = \<lparr>Trace = 1, Span = 2, Parent = 0\<rparr>,
         Annotations = [\<lparr>Key = ''Name'', Value = Some ''a''\<rparr>, \<lparr>Key = ''name'', Value = Some ''b''\<rparr>,
                        \<lparr>Key = ''name'', Value = Some ''c''\<rparr>]\<rparr>"
       "[\<lparr>Key = ''Name'', Value = Some ''a''\<rparr>]" "\<lparr>Key = ''name'', Value = Some ''b''\<rparr>"
       "[\<lparr>Key = ''name'', Value = Some ''c''\<rparr>]"]
    Name_first_name_annotation [of "\<lparr>ID = \<lparr>Trace = 1, Span = 2, Parent = 0\<rparr>,
         Annotations = [\<lparr>Key = ''Name'', Value = Some ''a''\<rparr>]\<rparr>"]
  by (simp add: go_string_def)

section \<open>Merging and redacting header sources\<close>

lemma map_of_assign: "map_of (assign k v m) = (map_of m)(k \<mapsto> v)"
  by (induction m) auto

lemma keys_assign: "fst ` set (assign k v m) = insert k (fst ` set m)"
  by (induction k v m rule: assign.induct) (simp_all add: insert_commute)

lemma distinct_assign: "distinct (map fst m) \<Longrightarrow> distinct (map fst (assign k v m))"
  by (induction m) (auto simp: keys_assign)

lemma keys_applySource: "fst ` set (applySource m src) = fst ` set m \<union> fst ` set src"
  by (induction m src rule: applySource.induct) (auto simp: keys_assign)

lemma distinct_applySource:
  "distinct (map fst m) \<Longrightarrow> distinct (map fst (applySource m src))"
  by (induction m src rule: applySource.induct) (auto simp: distinct_assign)

lemma map_of_applySource:
  "distinct (map fst src) \<Longrightarrow>
     map_of (applySource m src) k = (case map_of src k of None \<Rightarrow> map_of m k | Some v \<Rightarrow> Some v)"
proof (induction m src rule: applySource.induct)
  case (1 m)
  then show ?case by simp
next
  case (2 m k' v' src)
  then have "map_of src k' = None"
    by (simp add: map_of_eq_None_iff)
  with 2 show ?case
    by (simp add: map_of_assign split: option.splits)
qed

lemma distinct_mergeHeaders: "distinct (map fst (mergeHeaders p s))"
  by (simp add: mergeHeaders_def distinct_applySource)

lemma keys_mergeHeaders: "fst ` set (mergeHeaders p s) = fst ` set p \<union> fst ` set s"
  by (simp add: mergeHeaders_def keys_applySource)

lemma map_of_mergeHeaders:
  assumes "distinct (map fst p)" and "distinct (map fst s)"
  shows "map_of (mergeHeaders p s) k
           = (case map_of s k of None \<Rightarrow> map_of p k | Some v \<Rightarrow> Some v)"
  using assms by (simp add: mergeHeaders_def map_of_applySource split: option.splits)

lemma map_fst_redact: "map fst (redact m) = map fst m"
  by (induction m) (auto simp: redact_def)

lemma map_of_redact:
  "map_of (redact m) k
     = map_option (\<lambda>v. if isSensitive k then redactionMarker else v) (map_of m k)"
  by (induction m) (auto simp: redact_def)

lemma get_flattenMap: "get (flattenMap path m) (path @ ''.'' @ k) = map_of m k"
  by (induction m) (auto simp: flattenMap_def)

lemma keys_flattenMap:
  "Key ` set (flattenMap path m) = (\<lambda>k. path @ ''.'' @ k) ` fst ` set m"
  by (induction m) (auto simp: flattenMap_def)

lemma count_flattenMap:
  "distinct (map fst m) \<Longrightarrow>
     length (filter (\<lambda>a. Key a = path @ ''.'' @ k) (flattenMap path m))
       = (if k \<in> fst ` set m then 1 else 0)"
  by (induction m) (auto simp: flattenMap_def filter_map comp_def)

text \<open>
  C7. Marshaling a header field from a primary and a secondary source, each a map:
  the keys of the annotations are the path of the field followed by a key of either
  source, and every such key yields exactly one annotation; a key of the secondary source
  carries the secondary's value, also when the primary has the key, and a key of the
  primary alone carries the primary's value; except that a key matching a sensitive
  name, which \<^verbatim>\<open>Authorization\<close> is in any case of its letters, carries the marker
  \<^verbatim>\<open>REDACTED\<close> whatever the sources hold.
\<close>

theorem marshalHeaders_merge_redact:
  assumes "distinct (map fst primary)" and "distinct (map fst secondary)"
  shows "Key ` set (marshalHeaders path primary secondary)
           = (\<lambda>k. path @ ''.'' @ k) ` (fst ` set primary \<union> fst ` set secondary)
    \<and> length (filter (\<lambda>a. Key a = path @ ''.'' @ k) (marshalHeaders path primary secondary))
           = (if k \<in> fst ` set primary \<union> fst ` set secondary then 1 else 0)
    \<and> (map_of secondary k = Some v \<and> \<not> isSensitive k \<longrightarrow>
          get (marshalHeaders path primary secondary) (path @ ''.'' @ k) = Some v)
    \<and> (map_of secondary k = None \<and> map_of primary k = Some v \<and> \<not> isSensitive k \<longrightarrow>
          get (marshalHeaders path primary secondary) (path @ ''.'' @ k) = Some v)
    \<and> (k \<in> fst ` set primary \<union> fst ` set secondary \<and> isSensitive k \<longrightarrow>
          get (marshalHeaders path primary secondary) (path @ ''.'' @ k) = Some ''REDACTED'')
    \<and> (equalFold k ''Authorization'' \<longrightarrow> isSensitive k)"
proof -
  let ?m = "mergeHeaders primary secondary"
  have d: "distinct (map fst (redact ?m))"
    by (simp add: map_fst_redact distinct_mergeHeaders)
  have keys: "fst ` set (redact ?m) = fst ` set primary \<union> fst ` set secondary"
    using keys_mergeHeaders [of primary secondary] map_fst_redact [of ?m]
    by (metis set_map)
  have all: "Key ` set (marshalHeaders path primary secondary)
           = (\<lambda>k. path @ ''.'' @ k) ` (fst ` set primary \<union> fst ` set secondary)"
    by (simp only: marshalHeaders_def keys_flattenMap keys)
  have count: "length (filter (\<lambda>a. Key a = path @ ''.'' @ k) (marshalHeaders path primary secondary))
           = (if k \<in> fst ` set primary \<union> fst ` set secondary then 1 else 0)"
    unfolding marshalHeaders_def using count_flattenMap [OF d, of path k]
    by (simp only: keys)
  have val: "get (marshalHeaders path primary secondary) (path @ ''.'' @ k)
      = map_option (\<lambda>v. if isSensitive k then redactionMarker else v)
          (case map_of secondary k of None \<Rightarrow> map_of primary k | Some v \<Rightarrow> Some v)"
    by (simp only: marshalHeaders_def get_flattenMap map_of_redact
        map_of_mergeHeaders [OF assms])
  have sec: "map_of secondary k = Some v \<and> \<not> isSensitive k \<longrightarrow>
          get (marshalHeaders path primary secondary) (path @ ''.'' @ k) = Some v"
    using val by simp
  have pri: "map_of secondary k = None \<and> map_of primary k = Some v \<and> \<not> isSensitive k \<longrightarrow>
          get (marshalHeaders path primary secondary) (path @ ''.'' @ k) = Some v"
    using val by simp
  have "map_of secondary k \<noteq> None \<or> map_of primary k \<noteq> None"
    if "k \<in> fst ` set primary \<union> fst ` set secondary"
    using that by (auto simp: map_of_eq_None_iff)
  then have "k \<in> fst ` set primary \<union> fst ` set secondary \<Longrightarrow>
      \<exists>w. (case map_of secondary k of None \<Rightarrow> map_of primary k | Some v \<Rightarrow> Some v) = Some w"
    by (cases "map_of secondary k") auto
  then have red: "k \<in> fst ` set primary \<union> fst ` set secondary \<and> isSensitive k \<longrightarrow>
          get (marshalHeaders path primary secondary) (path @ ''.'' @ k) = Some ''REDACTED''"
    using val by (auto simp: redactionMarker_def)
  have fold: "equalFold k ''Authorization'' \<longrightarrow> isSensitive k"
    by (simp add: isSensitive_def sensitiveNames_def)
  from all count sec pri red fold show ?thesis
    by (intro conjI)
qed

lemma isSensitive_eval:
  "isSensitive ''Authorization''" "isSensitive ''authorization''"
  "\<not> isSensitive ''Accept''" "\<not> isSensitive ''Connection''"
  by (simp_all add: isSensitive_def sensitiveNames_def equalFold_def lower_def)

theorem marshalHeaders_merge_redact_witness:
  "marshalHeaders ''Request.Headers''
       [(''Authorization'', ''Basic seeecret''), (''Accept'', ''application/json'')]
       [(''Authorization'', ''Basic seeecret''), (''Connection'', ''close'')]
     = [\<lparr>Key = ''Request.Headers.Authorization'', Value = Some ''REDACTED''\<rparr>,
        \<lparr>Key = ''Request.Headers.Accept'', Value = Some ''application/json''\<rparr>,
        \<lparr>Key = ''Request.Headers.Connection'', Value = Some ''close''\<rparr>]
   \<and> get (marshalHeaders ''Request.Headers''
       [(''Authorization'', ''Basic seeecret''), (''Accept'', ''application/json'')]
       [(''Authorization'', ''Basic seeecret''), (''Connection'', ''close'')])
       ''Request.Headers.Authorization'' = Some ''REDACTED''
   \<and> get (marshalHeaders ''Request.Headers''
       [(''Authorization'', ''Basic seeecret''), (''Accept'', ''application/json'')]
       [(''Authorization'', ''Basic seeecret''), (''Connection'', ''close'')])
       ''Request.Headers.Accept'' = Some ''application/json''
   \<and> get (marshalHeaders ''Request.Headers''
       [(''Authorization'', ''Basic seeecret''), (''Accept'', ''application/json'')]
       [(''Authorization'', ''Basic seeecret''), (''Connection'', ''close'')])
       ''Request.Headers.Connection'' = Some ''close''"
proof -
  let ?p = "[(''Authorization'', ''Basic seeecret''), (''Accept'', ''application/json'')]"
  let ?s = "[(''Authorization'', ''Basic seeecret''), (''Connection'', ''close'')]"
  have dp: "distinct (map fst ?p)" and ds: "distinct (map fst ?s)"
    by simp_all
  have all: "marshalHeaders ''Request.Headers'' ?p ?s
     = [\<lparr>Key = ''Request.Headers.Authorization'', Value = Some ''REDACTED''\<rparr>,
        \<lparr>Key = ''Request.Headers.Accept'', Value = Some ''application/json''\<rparr>,
        \<lparr>Key = ''Request.Headers.Connection'', Value = Some ''close''\<rparr>]"
    by (simp add: marshalHeaders_def mergeHeaders_def redact_def flattenMap_def
        isSensitive_eval redactionMarker_def)
  have a: "get (marshalHeaders ''Request.Headers'' ?p ?s) (''Request.Headers'' @ ''.'' @ ''Authorization'')
      = Some ''REDACTED''"
    using marshalHeaders_merge_redact [OF dp ds, where k = "''Authorization''" and path = "''Request.Headers''"]
    by (simp add: isSensitive_eval)
  have b: "get (marshalHeaders ''Request.Headers'' ?p ?s) (''Request.Headers'' @ ''.'' @ ''Accept'')
      = Some ''application/json''"
    using marshalHeaders_merge_redact [OF dp ds, where k = "''Accept''" and v = "''application/json''"
        and path = "''Request.Headers''"]
    by (simp add: isSensitive_eval)
  have c: "get (marshalHeaders ''Request.Headers'' ?p ?s) (''Request.Headers'' @ ''.'' @ ''Connection'')
      = Some ''close''"
    using marshalHeaders_merge_redact [OF dp ds, where k = "''Connection''" and v = "''close''"
        and path = "''Request.Headers''"]
    by (simp add: isSensitive_eval)
  from all a b c show ?thesis
    by simp
qed

section \<open>Decoding tolerates unknown keys\<close>


lemma matches_path_Cons_neq:
  "n \<noteq> seg \<Longrightarrow> \<not> matches_path (seg # rest) (n # p, m)"
  by (simp add: matches_path_def)




























lemma last_match_none: "\<not> list_ex p as \<Longrightarrow> last_match p as = None"
  by (induction as) auto

lemma last_match_last:
  "p a \<Longrightarrow> \<not> list_ex p post \<Longrightarrow> last_match p (pre @ a # post) = Some (go_string (Value a))"
  by (induction pre) (auto simp: last_match_none)






end
